theory Spec2Isabelle
  imports Complex_Main "HOL-Library.Word"
begin

section \<open>Data model (src/types.ts)\<close>

text \<open>
  JavaScript numbers are modelled as rationals: the arithmetic the frame processor does
  on them (division by 40, 150, 3 and 255, multiplication by 0.8 and by -40, comparison
  with 0) is taken exactly. The values NaN that arise from reading a typed array out of
  range are modelled as \<open>None\<close>.
\<close>

datatype lut = LutNone | LogC | CineTeal | Vintage

record CameraSettings =
  exposure :: rat
  brightness :: rat
  contrast :: rat
  saturation :: rat
  iso :: rat
  shutterSpeed :: string
  whiteBalance :: rat
  stabilization :: bool
  upscale :: bool
  hdr :: bool
  bokeh :: rat
  glow :: rat
  lut :: lut

datatype mode = Camera | Scan | Relief

text \<open>
  A template literal is kept as the list of its pieces, literal text and interpolated
  numbers, in order; \<open>render\<close> gives the string once the number formatting of the host is
  fixed.
\<close>

datatype piece = Txt string | Num rat

type_synonym template = "piece list"

fun render :: "(rat \<Rightarrow> string) \<Rightarrow> template \<Rightarrow> string" where
  "render fmt [] = []"
| "render fmt (Txt t # ps) = t @ render fmt ps"
| "render fmt (Num n # ps) = fmt n @ render fmt ps"

section \<open>The DOM objects the component holds in refs (src/App.tsx)\<close>

text \<open>A media stream is the list of its track identifiers, as \<open>getTracks()\<close> returns it.\<close>

record video_el =
  readyState :: nat
  videoWidth :: nat
  videoHeight :: nat
  srcObject :: "nat list option"

record canvas_el =
  width :: nat
  height :: nat
  context2d :: bool

text \<open>
  What one cycle reads from its environment: the bytes \<open>getImageData\<close> returns (RGBA, one
  \<open>Uint8ClampedArray\<close> element each) and the successive results of \<open>Math.random()\<close>.
\<close>

record frame_env =
  imageData :: "8 word list"
  random :: "nat \<Rightarrow> rat"

text \<open>
  The calls a cycle issues, in order: on the 2D context, on the histogram state and on
  the animation-frame scheduler. The 2D context is an external collaborator; its calls
  are recorded as issued.
\<close>

datatype effect =
    SetFilter template
  | SetGlobalCompositeOperation string
  | SetGlobalAlpha rat
  | DrawImageVideo nat nat nat nat
  | DrawImageCanvas nat nat
  | GetImageData nat nat nat nat
  | SetFillStyle string
  | FillRect rat rat rat rat
  | SetStrokeStyle string
  | SetLineWidth rat
  | BeginPath
  | MoveTo rat "rat option"
  | LineTo rat "rat option"
  | Stroke
  | SetHistogramData
  | RequestAnimationFrame

section \<open>processFrame (src/App.tsx, lines 129-200)\<close>

subsection \<open>Wireframe rows: luminance sampling on a grid\<close>

definition step :: nat where
  "step = 20"

definition sample :: "8 word list \<Rightarrow> nat \<Rightarrow> rat option" where
  "sample data i = (if i < length data then Some (of_nat (unat (data ! i))) else None)"

definition pixel_brightness :: "8 word list \<Rightarrow> nat \<Rightarrow> rat option" where
  "pixel_brightness data idx =
     (case sample data idx of
        None \<Rightarrow> None
      | Some r \<Rightarrow>
          (case sample data (idx + 1) of
             None \<Rightarrow> None
           | Some g \<Rightarrow>
               (case sample data (idx + 2) of
                  None \<Rightarrow> None
                | Some b \<Rightarrow> Some ((r + g + b) / 3))))"

definition offset :: "rat option \<Rightarrow> rat option" where
  "offset pb = map_option (\<lambda>v. (v / 255) * (- 40)) pb"

function relief_row :: "8 word list \<Rightarrow> nat \<Rightarrow> nat \<Rightarrow> nat \<Rightarrow> effect list" where
  "relief_row data w y x =
     (if x < w then
        (let idx = (y * w + x) * 4;
             off = offset (pixel_brightness data idx);
             py = map_option (\<lambda>d. of_nat y + d) off
         in (if x = 0 then MoveTo (of_nat x) py else LineTo (of_nat x) py)
            # relief_row data w y (x + step))
      else [])"
  by pat_completeness auto
termination
  by (relation "measure (\<lambda>(data, w, y, x). w - x)") (auto simp: step_def)

declare relief_row.simps [simp del]

function relief_rows :: "8 word list \<Rightarrow> nat \<Rightarrow> nat \<Rightarrow> nat \<Rightarrow> effect list" where
  "relief_rows data w h y =
     (if y < h then
        BeginPath # relief_row data w y 0 @ [Stroke]
          @ relief_rows data w h (y + step)
      else [])"
  by pat_completeness auto
termination
  by (relation "measure (\<lambda>(data, w, h, y). h - y)") (auto simp: step_def)

declare relief_rows.simps [simp del]

subsection \<open>Standard pipeline: base grade, glow, scan grid\<close>

definition filters :: "CameraSettings \<Rightarrow> template" where
  "filters settings =
     [Txt ''brightness('', Num (brightness settings),
      Txt ''%) contrast('', Num (contrast settings),
      Txt ''%) saturate('', Num (saturation settings),
      Txt ''%) blur('', Num (bokeh settings / 40), Txt ''px)'']
     @ (if lut settings = CineTeal then [Txt '' hue-rotate(180deg) saturate(130%)''] else [])
     @ (if lut settings = Vintage then [Txt '' sepia(40%) contrast(90%) brightness(95%)''] else [])"

definition glow_stage :: "CameraSettings \<Rightarrow> effect list" where
  "glow_stage settings =
     (if glow settings > 0 then
        [SetGlobalAlpha (glow settings / 150),
         SetGlobalCompositeOperation ''screen'',
         SetFilter [Txt ''blur('', Num (glow settings * (4 / 5)), Txt ''px) brightness(140%)''],
         DrawImageCanvas 0 0,
         SetGlobalCompositeOperation ''source-over'',
         SetGlobalAlpha 1]
      else [])"

function grid_columns :: "nat \<Rightarrow> nat \<Rightarrow> nat \<Rightarrow> effect list" where
  "grid_columns i w h =
     (if i < w then
        MoveTo (of_nat i) (Some 0) # LineTo (of_nat i) (Some (of_nat h))
          # grid_columns (i + 60) w h
      else [])"
  by pat_completeness auto
termination
  by (relation "measure (\<lambda>(i, w, h). w - i)") auto

declare grid_columns.simps [simp del]

function grid_lines :: "nat \<Rightarrow> nat \<Rightarrow> nat \<Rightarrow> effect list" where
  "grid_lines i w h =
     (if i < h then
        MoveTo 0 (Some (of_nat i)) # LineTo (of_nat w) (Some (of_nat i))
          # grid_lines (i + 60) w h
      else [])"
  by pat_completeness auto
termination
  by (relation "measure (\<lambda>(i, w, h). h - i)") auto

declare grid_lines.simps [simp del]

function squares :: "nat \<Rightarrow> (nat \<Rightarrow> rat) \<Rightarrow> nat \<Rightarrow> nat \<Rightarrow> effect list" where
  "squares i rnd w h =
     (if i < 30 then
        (let rx = of_int \<lfloor>rnd (2 * i) * of_nat w\<rfloor>;
             ry = of_int \<lfloor>rnd (2 * i + 1) * of_nat h\<rfloor>
         in FillRect rx ry 3 3 # squares (i + 1) rnd w h)
      else [])"
  by pat_completeness auto
termination
  by (relation "measure (\<lambda>(i, rnd, w, h). 30 - i)") auto

declare squares.simps [simp del]

definition scan_overlay :: "(nat \<Rightarrow> rat) \<Rightarrow> nat \<Rightarrow> nat \<Rightarrow> effect list" where
  "scan_overlay rnd w h =
     [SetStrokeStyle ''rgba(34, 211, 238, 0.4)'', SetLineWidth (1 / 2), BeginPath]
     @ grid_columns 0 w h
     @ grid_lines 0 w h
     @ [Stroke, SetFillStyle ''#22d3ee'']
     @ squares 0 rnd w h"

text \<open>
  The number of \<open>Math.random()\<close> results the drawing part has consumed when the histogram
  test draws its own: sixty in scan mode (two per square), none otherwise.
\<close>

definition randoms_drawn :: "mode \<Rightarrow> nat" where
  "randoms_drawn m = (if m = Scan then 60 else 0)"

definition base_grade :: "CameraSettings \<Rightarrow> nat \<Rightarrow> nat \<Rightarrow> effect list" where
  "base_grade settings w h =
     [SetFilter (filters settings), DrawImageVideo 0 0 w h]"

definition draw :: "CameraSettings \<Rightarrow> mode \<Rightarrow> frame_env \<Rightarrow> canvas_el \<Rightarrow> effect list" where
  "draw settings m env canvas =
     [SetFilter [Txt ''none''], SetGlobalCompositeOperation ''source-over'']
     @ (if m = Relief then
          [DrawImageVideo 0 0 (width canvas) (height canvas),
           GetImageData 0 0 (width canvas) (height canvas),
           SetFillStyle ''#0a0a0a'',
           FillRect 0 0 (of_nat (width canvas)) (of_nat (height canvas)),
           SetStrokeStyle ''#22d3ee'',
           SetLineWidth 1]
          @ relief_rows (imageData env) (width canvas) (height canvas) 0
        else
          base_grade settings (width canvas) (height canvas)
          @ glow_stage settings
          @ (if m = Scan then scan_overlay (random env) (width canvas) (height canvas) else []))
     @ (if random env (randoms_drawn m) > 85 / 100 then [SetHistogramData] else [])"

text \<open>
  One invocation. The refs may be null (\<open>None\<close>), the video may not be ready
  (\<open>readyState \<noteq> 4\<close>) and \<open>getContext\<close> may give no context; the last statement
  is reached on every path.
\<close>

definition processFrame ::
  "CameraSettings \<Rightarrow> mode \<Rightarrow> frame_env \<Rightarrow> video_el option \<Rightarrow> canvas_el option \<Rightarrow> effect list" where
  "processFrame settings m env videoRef canvasRef =
     (case videoRef of
        None \<Rightarrow> []
      | Some video \<Rightarrow>
          (case canvasRef of
             None \<Rightarrow> []
           | Some canvas \<Rightarrow>
               (if readyState video = 4 then
                  (if context2d canvas then draw settings m env canvas else [])
                else [])))
     @ [RequestAnimationFrame]"

section \<open>The component's life cycle (src/App.tsx, lines 47-109 and 202-205)\<close>

text \<open>
  The component state the claims about sizing, scheduling and teardown depend on: the
  React state \<open>settings\<close> and \<open>mode\<close>, the three refs, and on the browser's side the list
  of pending animation-frame callbacks (each a handle and the \<open>processFrame\<close> closure it
  will call, that is the settings and mode the closure captured), the next handle, the
  \<open>onloadedmetadata\<close> handler of the video element, and a log of the \<open>track.stop()\<close>
  calls and of the cycles run.
\<close>

datatype handler = SizeCanvasAndPlay | PlayOnly

record cycle =
  cyc_video :: "video_el option"
  cyc_canvas :: "canvas_el option"
  cyc_effects :: "effect list"

record app =
  settings :: CameraSettings
  mode :: mode
  cameraError :: "string option"
  videoRef :: "video_el option"
  canvasRef :: "canvas_el option"
  requestRef :: "nat option"
  mounted :: bool
  callbacks :: "(nat \<times> CameraSettings \<times> mode) list"
  next_handle :: nat
  onloadedmetadata :: "handler option"
  stopped :: "nat list"
  cycles :: "cycle list"

definition INITIAL_SETTINGS :: CameraSettings where
  "INITIAL_SETTINGS =
     \<lparr>exposure = 0, brightness = 100, contrast = 100, saturation = 100, iso = 800,
      shutterSpeed = ''1/48'', whiteBalance = 5600, stabilization = True, upscale = True,
      hdr = True, bokeh = 0, glow = 10, lut = LutNone\<rparr>"

text \<open>
  \<open>requestRef.current = requestAnimationFrame(processFrame)\<close>: the browser appends the
  callback under a fresh handle, the ref receives the handle.
\<close>

definition requestAnimationFrame :: "CameraSettings \<times> mode \<Rightarrow> app \<Rightarrow> app" where
  "requestAnimationFrame cb a =
     a\<lparr>callbacks := callbacks a @ [(next_handle a, cb)],
       requestRef := Some (next_handle a),
       next_handle := next_handle a + 1\<rparr>"

definition cancelAnimationFrame :: "nat \<Rightarrow> app \<Rightarrow> app" where
  "cancelAnimationFrame handle a = a\<lparr>callbacks := filter (\<lambda>p. fst p \<noteq> handle) (callbacks a)\<rparr>"

text \<open>
  The state after the first render and its two effects: the refs hold the elements (the
  canvas with the dimensions of the JSX, 1920 by 1080), \<open>initCamera\<close> has been started
  and the first cycle is requested. Whether the canvas gives a 2D context is the
  browser's choice.
\<close>

definition mount :: "bool \<Rightarrow> app" where
  "mount ctx =
     requestAnimationFrame (INITIAL_SETTINGS, Camera)
       \<lparr>settings = INITIAL_SETTINGS, mode = Camera, cameraError = None,
        videoRef = Some \<lparr>readyState = 0, videoWidth = 0, videoHeight = 0, srcObject = None\<rparr>,
        canvasRef = Some \<lparr>width = 1920, height = 1080, context2d = ctx\<rparr>,
        requestRef = None, mounted = True, callbacks = [], next_handle = 1,
        onloadedmetadata = None, stopped = [], cycles = []\<rparr>"

text \<open>
  \<open>initCamera\<close> (lines 62-99), by the outcome of its two \<open>getUserMedia\<close> requests: the
  first one gives a stream, the first fails and the fallback gives one, or both fail.
\<close>

datatype camera_outcome = IdealStream "nat list" | FallbackStream "nat list" | NoCamera string

definition initCamera :: "camera_outcome \<Rightarrow> app \<Rightarrow> app" where
  "initCamera outcome a =
     (let a0 = a\<lparr>cameraError := None\<rparr> in
      case outcome of
        IdealStream stream \<Rightarrow>
          (case videoRef a0 of
             None \<Rightarrow> a0
           | Some video \<Rightarrow>
               a0\<lparr>videoRef := Some (video\<lparr>srcObject := Some stream\<rparr>),
                  onloadedmetadata := Some SizeCanvasAndPlay\<rparr>)
      | FallbackStream stream \<Rightarrow>
          (case videoRef a0 of
             None \<Rightarrow> a0
           | Some video \<Rightarrow>
               a0\<lparr>videoRef := Some (video\<lparr>srcObject := Some stream\<rparr>),
                  onloadedmetadata := Some PlayOnly\<rparr>)
      | NoCamera msg \<Rightarrow>
          a0\<lparr>cameraError := Some (if msg = [] then ''Could not access rear camera.'' else msg)\<rparr>)"

text \<open>
  The handler registered at line 76 and the one registered at line 93. \<open>play()\<close> changes
  nothing here; the frame becoming ready arrives as an event of its own below.
\<close>

definition run_handler :: "handler \<Rightarrow> app \<Rightarrow> app" where
  "run_handler hdl a =
     (case hdl of
        SizeCanvasAndPlay \<Rightarrow>
          (case canvasRef a of
             None \<Rightarrow> a
           | Some canvas \<Rightarrow>
               (case videoRef a of
                  None \<Rightarrow> a
                | Some video \<Rightarrow>
                    a\<lparr>canvasRef :=
                        Some (canvas\<lparr>width := videoWidth video, height := videoHeight video\<rparr>)\<rparr>))
      | PlayOnly \<Rightarrow> a)"

text \<open>The cleanup of the camera effect (lines 103-108) and of the scheduling effect (line 204).\<close>

definition camera_cleanup :: "app \<Rightarrow> app" where
  "camera_cleanup a =
     (case videoRef a of
        None \<Rightarrow> a
      | Some video \<Rightarrow>
          (case srcObject video of
             None \<Rightarrow> a
           | Some stream \<Rightarrow> a\<lparr>stopped := stopped a @ stream\<rparr>))"

definition schedule_cleanup :: "app \<Rightarrow> app" where
  "schedule_cleanup a =
     (case requestRef a of
        None \<Rightarrow> a
      | Some handle \<Rightarrow> if handle \<noteq> 0 then cancelAnimationFrame handle a else a)"

text \<open>
  One callback run by the browser: \<open>processFrame\<close> with the settings and mode its closure
  captured, on the refs as they are now. Its effects are logged; each
  \<open>RequestAnimationFrame\<close> among them requests the same closure again.
\<close>

definition run_callback :: "frame_env \<Rightarrow> CameraSettings \<times> mode \<Rightarrow> app \<Rightarrow> app" where
  "run_callback env cb a =
     (let effs = processFrame (fst cb) (snd cb) env (videoRef a) (canvasRef a);
          a1 = a\<lparr>cycles := cycles a @
                 [\<lparr>cyc_video = videoRef a, cyc_canvas = canvasRef a, cyc_effects = effs\<rparr>]\<rparr>
      in foldl (\<lambda>b e. if e = RequestAnimationFrame then requestAnimationFrame cb b else b)
           a1 effs)"

text \<open>
  What can happen to the mounted component. From the browser: an \<open>initCamera\<close> call
  settles, the video's metadata load with the native dimensions (\<open>readyState\<close> reaches
  at least 1 and the registered handler runs), the frame is fully decoded (\<open>readyState\<close>
  4), the source changes its native resolution, an animation frame runs the pending
  callbacks. From React: a settings update, a mode switch, the unmount.
\<close>

datatype event =
    CameraResolved camera_outcome
  | LoadedMetadata nat nat
  | CanPlayThrough
  | SourceResize nat nat
  | AnimationFrame frame_env
  | UpdateSetting CameraSettings
  | SetMode mode
  | Unmount

text \<open>
  A re-render with a new \<open>processFrame\<close> (new settings object or a different mode) runs
  the scheduling effect's cleanup and then the effect. React delivers no update to an
  unmounted component.

  On unmount React (17 and later) first detaches the refs of the host elements, setting
  \<open>videoRef.current\<close> and \<open>canvasRef.current\<close> to null when it commits the removal, and
  only afterwards runs the cleanups of the \<open>useEffect\<close> effects. Both cleanups read
  their ref when they run: the camera cleanup finds \<open>videoRef.current\<close> null;
  \<open>requestRef\<close> is a plain value ref, which React never touches.
\<close>

definition rerender :: "CameraSettings \<Rightarrow> mode \<Rightarrow> app \<Rightarrow> app" where
  "rerender s m a =
     requestAnimationFrame (s, m) (schedule_cleanup (a\<lparr>settings := s, mode := m\<rparr>))"

fun app_step :: "app \<Rightarrow> event \<Rightarrow> app" where
  "app_step a (CameraResolved outcome) = initCamera outcome a"
| "app_step a (LoadedMetadata w h) =
     (let a1 = a\<lparr>videoRef :=
                   map_option (\<lambda>v. v\<lparr>readyState := max 1 (readyState v),
                                       videoWidth := w, videoHeight := h\<rparr>) (videoRef a)\<rparr>
      in case onloadedmetadata a1 of None \<Rightarrow> a1 | Some hdl \<Rightarrow> run_handler hdl a1)"
| "app_step a CanPlayThrough = a\<lparr>videoRef := map_option (\<lambda>v. v\<lparr>readyState := 4\<rparr>) (videoRef a)\<rparr>"
| "app_step a (SourceResize w h) =
     a\<lparr>videoRef := map_option (\<lambda>v. v\<lparr>videoWidth := w, videoHeight := h\<rparr>) (videoRef a)\<rparr>"
| "app_step a (AnimationFrame env) =
     foldl (\<lambda>b p. run_callback env (snd p) b) (a\<lparr>callbacks := []\<rparr>) (callbacks a)"
| "app_step a (UpdateSetting s) = (if mounted a then rerender s (mode a) a else a)"
| "app_step a (SetMode m) = (if mounted a \<and> m \<noteq> mode a then rerender (settings a) m a else a)"
| "app_step a Unmount =
     (if mounted a then
        (schedule_cleanup (camera_cleanup (a\<lparr>videoRef := None, canvasRef := None\<rparr>)))
          \<lparr>mounted := False\<rparr>
      else a)"

definition run :: "event list \<Rightarrow> app \<Rightarrow> app" where
  "run es a = foldl app_step a es"

section \<open>Analysis Bridge (src/services/geminiService.ts, lines 1-48)\<close>

datatype json =
    JNull
  | JBool bool
  | JNumber rat
  | JString string
  | JArray "json list"
  | JObject "(string \<times> json) list"

record request =
  req_model :: string
  req_text :: string
  req_mimeType :: string
  req_data :: string
  req_responseMimeType :: string

text \<open>
  What \<open>await ai.models.generateContent(...)\<close> and the read of \<open>response.text\<close> can do:
  the call throws, the promise rejects, or a response arrives whose \<open>text\<close> raises, is
  undefined or is a string. Exceptions carry a message.
\<close>

datatype response_text = TextRaises string | TextUndefined | TextString string

datatype call_behaviour = Throws string | Rejects string | Responds response_text

text \<open>
  \<open>JSON.parse\<close> belongs to the host; it is a parameter, \<open>None\<close> where it throws.
  \<open>attempt\<close> is the body of the \<open>try\<close> block: \<open>Inl\<close> is an exception on its way to
  the \<open>catch\<close>.
\<close>

definition parse_or_throw :: "(string \<Rightarrow> json option) \<Rightarrow> string \<Rightarrow> string + json" where
  "parse_or_throw JSON_parse s =
     (case JSON_parse s of None \<Rightarrow> Inl ''SyntaxError'' | Some v \<Rightarrow> Inr v)"

definition attempt :: "(string \<Rightarrow> json option) \<Rightarrow> call_behaviour \<Rightarrow> string + json" where
  "attempt JSON_parse call =
     (case call of
        Throws e \<Rightarrow> Inl e
      | Rejects e \<Rightarrow> Inl e
      | Responds t \<Rightarrow>
          (case t of
             TextRaises e \<Rightarrow> Inl e
           | TextUndefined \<Rightarrow> parse_or_throw JSON_parse ''{}''
           | TextString s \<Rightarrow> parse_or_throw JSON_parse (if s = [] then ''{}'' else s)))"

definition frame_request :: "string \<Rightarrow> request" where
  "frame_request base64Image =
     \<lparr>req_model = ''gemini-3-flash-preview'',
      req_text = ''Analyze this cinematic frame. Return JSON: luminance (0-100), colorTemp (string), detectedObjects (array), suggestions (string).'',
      req_mimeType = ''image/jpeg'',
      req_data = base64Image,
      req_responseMimeType = ''application/json''\<rparr>"

definition topology_request :: "string \<Rightarrow> request" where
  "topology_request base64Image =
     \<lparr>req_model = ''gemini-3-flash-preview'',
      req_text = ''Act as a 3D Scanning expert. Analyze this image of an object being scanned. Detect topology errors, UV mapping issues, or missing geometry. Return JSON: vertices (est count), topologyScore (0-100), uvStatus (string), defects (array of strings), suggestedFix (string).'',
      req_mimeType = ''image/jpeg'',
      req_data = base64Image,
      req_responseMimeType = ''application/json''\<rparr>"

definition scene_default :: json where
  "scene_default =
     JObject [(''luminance'', JNumber 50), (''colorTemp'', JString ''Neutral''),
              (''detectedObjects'', JArray []), (''suggestions'', JString ''Awaiting input'')]"

definition topology_default :: json where
  "topology_default =
     JObject [(''vertices'', JNumber 0), (''topologyScore'', JNumber 0),
              (''uvStatus'', JString ''Error''), (''defects'', JArray []),
              (''suggestedFix'', JString ''Reposition for better lighting'')]"

text \<open>
  The settled promise of each function: \<open>Inr\<close> is the value it resolves with, \<open>Inl\<close> the
  reason it would reject with.
\<close>

definition analyzeFrame ::
  "(string \<Rightarrow> json option) \<Rightarrow> (request \<Rightarrow> call_behaviour) \<Rightarrow> string \<Rightarrow> string + json" where
  "analyzeFrame JSON_parse generateContent base64Image =
     (case attempt JSON_parse (generateContent (frame_request base64Image)) of
        Inr v \<Rightarrow> Inr v
      | Inl e \<Rightarrow> Inr scene_default)"

definition analyzeTopology ::
  "(string \<Rightarrow> json option) \<Rightarrow> (request \<Rightarrow> call_behaviour) \<Rightarrow> string \<Rightarrow> string + json" where
  "analyzeTopology JSON_parse generateContent base64Image =
     (case attempt JSON_parse (generateContent (topology_request base64Image)) of
        Inr v \<Rightarrow> Inr v
      | Inl e \<Rightarrow> Inr topology_default)"

section \<open>Notions used in the statements\<close>

text \<open>
  The rows the wireframe loop would emit if every sampled point had the same vertical
  displacement \<open>d\<close>: the same grid, the same commands, \<open>y + d\<close> at every point.
\<close>

function displaced_row :: "rat \<Rightarrow> nat \<Rightarrow> nat \<Rightarrow> nat \<Rightarrow> effect list" where
  "displaced_row d w y x =
     (if x < w then
        (if x = 0 then MoveTo (of_nat x) (Some (of_nat y + d))
         else LineTo (of_nat x) (Some (of_nat y + d)))
        # displaced_row d w y (x + step)
      else [])"
  by pat_completeness auto
termination
  by (relation "measure (\<lambda>(d, w, y, x). w - x)") (auto simp: step_def)

declare displaced_row.simps [simp del]

function displaced_rows :: "rat \<Rightarrow> nat \<Rightarrow> nat \<Rightarrow> nat \<Rightarrow> effect list" where
  "displaced_rows d w h y =
     (if y < h then
        BeginPath # displaced_row d w y 0 @ [Stroke] @ displaced_rows d w h (y + step)
      else [])"
  by pat_completeness auto
termination
  by (relation "measure (\<lambda>(d, w, h, y). h - y)") (auto simp: step_def)

declare displaced_rows.simps [simp del]

text \<open>A frame whose red, green and blue bytes all equal \<open>c\<close> (the alpha byte is free).\<close>

definition uniform :: "8 word \<Rightarrow> 8 word list \<Rightarrow> bool" where
  "uniform c data = list_all (\<lambda>i. i mod 4 = 3 \<or> data ! i = c) [0..<length data]"

text \<open>The commands the loops of a cycle issue: path construction and filled squares.\<close>

fun path_op :: "effect \<Rightarrow> bool" where
  "path_op BeginPath = True"
| "path_op (MoveTo x y) = True"
| "path_op (LineTo x y) = True"
| "path_op Stroke = True"
| "path_op (FillRect x y w h) = True"
| "path_op e = False"

text \<open>
  The scheduling invariant: at most one callback is pending, its handle is the one
  \<open>requestRef\<close> holds, handles are positive, and nothing is pending once unmounted.
\<close>

definition pending_ok :: "app \<Rightarrow> bool" where
  "pending_ok a =
     (next_handle a \<noteq> 0 \<and> (mounted a \<or> callbacks a = [])
      \<and> length (callbacks a) \<le> 1
      \<and> list_all (\<lambda>p. requestRef a = Some (fst p) \<and> fst p \<noteq> 0) (callbacks a))"

text \<open>Events that leave the native resolution of the video as it is.\<close>

fun keeps_resolution :: "event \<Rightarrow> bool" where
  "keeps_resolution (LoadedMetadata w h) = False"
| "keeps_resolution (SourceResize w h) = False"
| "keeps_resolution e = True"

text \<open>The canvas and the video agree on \<open>w\<close> by \<open>h\<close>.\<close>

definition synced :: "nat \<Rightarrow> nat \<Rightarrow> video_el option \<Rightarrow> canvas_el option \<Rightarrow> bool" where
  "synced w h v c =
     (case v of
        None \<Rightarrow> False
      | Some video \<Rightarrow>
          (case c of
             None \<Rightarrow> False
           | Some canvas \<Rightarrow>
               videoWidth video = w \<and> videoHeight video = h
               \<and> width canvas = w \<and> height canvas = h))"

text \<open>
  A cycle that ran with video and canvas both \<open>w\<close> by \<open>h\<close> and drew the video at
  \<open>w\<close> by \<open>h\<close>.
\<close>

fun drawn_at :: "nat \<Rightarrow> nat \<Rightarrow> effect \<Rightarrow> bool" where
  "drawn_at w h (DrawImageVideo x y dw dh) = (dw = w \<and> dh = h)"
| "drawn_at w h e = True"

definition cycle_at :: "nat \<Rightarrow> nat \<Rightarrow> cycle \<Rightarrow> bool" where
  "cycle_at w h cy =
     (synced w h (cyc_video cy) (cyc_canvas cy) \<and> list_all (drawn_at w h) (cyc_effects cy))"

text \<open>A cycle environment with an empty image and \<open>Math.random()\<close> always 0.\<close>

definition still_env :: frame_env where
  "still_env = \<lparr>imageData = [], random = (\<lambda>k. 0)\<rparr>"

text \<open>Property lookup on a parsed value: \<open>None\<close> is \<open>undefined\<close>.\<close>

definition field_of :: "json \<Rightarrow> string \<Rightarrow> json option" where
  "field_of v k = (case v of JObject kvs \<Rightarrow> map_of kvs k | _ \<Rightarrow> None)"

text \<open>
  Sample collaborators: a service whose request is rejected, one that answers with an
  empty body, and a parser that accepts the text \<open>{}\<close> and nothing else.
\<close>

definition rejecting :: "request \<Rightarrow> call_behaviour" where
  "rejecting r = Rejects ''network''"

definition answering_empty :: "request \<Rightarrow> call_behaviour" where
  "answering_empty r = Responds (TextString [])"

definition parse_braces :: "string \<Rightarrow> json option" where
  "parse_braces s = (if s = ''{}'' then Some (JObject []) else None)"

section \<open>Properties of the loops\<close>

lemma relief_row_path: "\<forall>e \<in> set (relief_row data w y x). path_op e"
proof (induction data w y x rule: relief_row.induct)
  case (1 data w y x)
  show ?case
  proof (cases "x < w")
    case True
    with 1 show ?thesis
      by (subst relief_row.simps) (simp add: Let_def)
  next
    case False
    then show ?thesis by (subst relief_row.simps) simp
  qed
qed

lemma relief_rows_path: "\<forall>e \<in> set (relief_rows data w h y). path_op e"
proof (induction data w h y rule: relief_rows.induct)
  case (1 data w h y)
  show ?case
  proof (cases "y < h")
    case True
    with 1 show ?thesis
      by (subst relief_rows.simps) (auto dest: relief_row_path [THEN bspec])
  next
    case False
    then show ?thesis by (subst relief_rows.simps) simp
  qed
qed

lemma grid_columns_path: "\<forall>e \<in> set (grid_columns i w h). path_op e"
proof (induction i w h rule: grid_columns.induct)
  case (1 i w h)
  show ?case
  proof (cases "i < w")
    case True
    with 1 show ?thesis by (subst grid_columns.simps) simp
  next
    case False
    then show ?thesis by (subst grid_columns.simps) simp
  qed
qed

lemma grid_lines_path: "\<forall>e \<in> set (grid_lines i w h). path_op e"
proof (induction i w h rule: grid_lines.induct)
  case (1 i w h)
  show ?case
  proof (cases "i < h")
    case True
    with 1 show ?thesis by (subst grid_lines.simps) simp
  next
    case False
    then show ?thesis by (subst grid_lines.simps) simp
  qed
qed

lemma squares_path: "\<forall>e \<in> set (squares i rnd w h). path_op e"
proof (induction i rnd w h rule: squares.induct)
  case (1 i rnd w h)
  show ?case
  proof (cases "i < 30")
    case True
    with 1 show ?thesis by (subst squares.simps) (simp add: Let_def)
  next
    case False
    then show ?thesis by (subst squares.simps) simp
  qed
qed

lemma path_op_not_request: "\<forall>e \<in> set es. path_op e \<Longrightarrow> RequestAnimationFrame \<notin> set es"
  by auto

lemma path_op_not_video: "\<forall>e \<in> set es. path_op e \<Longrightarrow> DrawImageVideo a b c d \<notin> set es"
  by auto

lemma draw_no_request: "RequestAnimationFrame \<notin> set (draw s m env canvas)"
  using path_op_not_request [OF relief_rows_path] path_op_not_request [OF grid_columns_path]
    path_op_not_request [OF grid_lines_path] path_op_not_request [OF squares_path]
  by (simp add: draw_def base_grade_def glow_stage_def scan_overlay_def)

lemma draw_video_dims:
  assumes "DrawImageVideo a b dw dh \<in> set (draw s m env canvas)"
  shows "dw = width canvas \<and> dh = height canvas"
  using assms path_op_not_video [OF relief_rows_path] path_op_not_video [OF grid_columns_path]
    path_op_not_video [OF grid_lines_path] path_op_not_video [OF squares_path]
  by (simp add: draw_def base_grade_def glow_stage_def scan_overlay_def split: if_splits)

lemma processFrame_shape:
  "\<exists>draws. processFrame s m env v c = draws @ [RequestAnimationFrame]
      \<and> RequestAnimationFrame \<notin> set draws"
  by (simp add: processFrame_def draw_no_request split: option.splits)

lemma processFrame_video_dims:
  assumes "DrawImageVideo a b dw dh \<in> set (processFrame s m env v (Some canvas))"
  shows "dw = width canvas \<and> dh = height canvas"
proof -
  from assms have "DrawImageVideo a b dw dh \<in> set (draw s m env canvas)"
    by (auto simp: processFrame_def split: option.splits if_splits)
  then show ?thesis by (rule draw_video_dims)
qed

section \<open>The scheduling invariant\<close>

lemma foldl_no_request:
  "RequestAnimationFrame \<notin> set es \<Longrightarrow>
   foldl (\<lambda>b e. if e = RequestAnimationFrame then f b else b) a es = a"
  by (induction es arbitrary: a) auto

lemma run_callback_eq:
  "run_callback env cb a =
     requestAnimationFrame cb
       (a\<lparr>cycles := cycles a @
            [\<lparr>cyc_video = videoRef a, cyc_canvas = canvasRef a,
              cyc_effects = processFrame (fst cb) (snd cb) env (videoRef a) (canvasRef a)\<rparr>]\<rparr>)"
proof -
  obtain draws where d: "processFrame (fst cb) (snd cb) env (videoRef a) (canvasRef a)
      = draws @ [RequestAnimationFrame]" and n: "RequestAnimationFrame \<notin> set draws"
    using processFrame_shape by blast
  show ?thesis
    unfolding run_callback_def Let_def d
    by (simp add: foldl_no_request [OF n])
qed

lemma pending_ok_mount: "pending_ok (mount ctx)"
  by (simp add: pending_ok_def mount_def requestAnimationFrame_def)

lemma pending_ok_request:
  assumes "next_handle a \<noteq> 0" and "callbacks a = []" and "mounted a"
  shows "pending_ok (requestAnimationFrame cb a)"
  using assms by (simp add: pending_ok_def requestAnimationFrame_def)

lemma schedule_cleanup_clears:
  assumes "pending_ok a"
  shows "callbacks (schedule_cleanup a) = []"
proof (cases "callbacks a")
  case Nil
  then show ?thesis
    by (simp add: schedule_cleanup_def cancelAnimationFrame_def split: option.splits)
next
  case (Cons p ps)
  with assms have "ps = []" "requestRef a = Some (fst p)" "fst p \<noteq> 0"
    by (simp_all add: pending_ok_def)
  with Cons show ?thesis
    by (simp add: schedule_cleanup_def cancelAnimationFrame_def)
qed

lemma schedule_cleanup_fields:
  "next_handle (schedule_cleanup a) = next_handle a"
  "mounted (schedule_cleanup a) = mounted a"
  "cycles (schedule_cleanup a) = cycles a"
  "stopped (schedule_cleanup a) = stopped a"
  "videoRef (schedule_cleanup a) = videoRef a"
  "canvasRef (schedule_cleanup a) = canvasRef a"
  by (simp_all add: schedule_cleanup_def cancelAnimationFrame_def split: option.splits)

lemma pending_ok_rerender:
  assumes "pending_ok a" and "mounted a"
  shows "pending_ok (rerender s m a)"
proof -
  let ?b = "schedule_cleanup (a\<lparr>settings := s, mode := m\<rparr>)"
  have "pending_ok (a\<lparr>settings := s, mode := m\<rparr>)"
    using assms(1) by (simp add: pending_ok_def)
  then have "callbacks ?b = []" by (rule schedule_cleanup_clears)
  moreover have "next_handle ?b \<noteq> 0" "mounted ?b"
    using assms by (simp_all add: schedule_cleanup_fields pending_ok_def)
  ultimately show ?thesis
    unfolding rerender_def by (intro pending_ok_request)
qed

lemma pending_ok_frame:
  assumes "pending_ok a"
  shows "pending_ok (app_step a (AnimationFrame env))"
proof (cases "callbacks a")
  case Nil
  with assms show ?thesis by (simp add: pending_ok_def)
next
  case (Cons p ps)
  with assms have ps: "ps = []" and m: "mounted a" and n: "next_handle a \<noteq> 0"
    by (auto simp: pending_ok_def)
  show ?thesis
    using Cons ps m n
    by (simp add: run_callback_eq pending_ok_request)
qed

lemma pending_ok_unmount:
  assumes "pending_ok a"
  shows "pending_ok (app_step a Unmount)"
proof (cases "mounted a")
  case True
  let ?b = "camera_cleanup (a\<lparr>videoRef := None, canvasRef := None\<rparr>)"
  have "pending_ok ?b"
    using assms by (simp add: pending_ok_def camera_cleanup_def)
  then have "callbacks (schedule_cleanup ?b) = []"
    by (rule schedule_cleanup_clears)
  moreover have "next_handle (schedule_cleanup ?b) \<noteq> 0"
    using assms by (simp add: schedule_cleanup_fields pending_ok_def camera_cleanup_def)
  ultimately show ?thesis using True by (simp add: pending_ok_def)
next
  case False
  with assms show ?thesis by simp
qed

lemma pending_ok_step:
  assumes "pending_ok a"
  shows "pending_ok (app_step a e)"
proof (cases e)
  case (CameraResolved outcome)
  with assms show ?thesis
    by (simp add: pending_ok_def initCamera_def Let_def split: camera_outcome.splits option.splits)
next
  case (LoadedMetadata w h)
  with assms show ?thesis
    by (simp add: pending_ok_def run_handler_def Let_def
        split: option.splits handler.splits)
next
  case CanPlayThrough
  with assms show ?thesis by (simp add: pending_ok_def)
next
  case (SourceResize w h)
  with assms show ?thesis by (simp add: pending_ok_def)
next
  case (AnimationFrame env)
  with assms show ?thesis by (simp only: pending_ok_frame)
next
  case (UpdateSetting s)
  with assms show ?thesis by (simp add: pending_ok_rerender)
next
  case (SetMode m)
  with assms show ?thesis by (simp add: pending_ok_rerender)
next
  case Unmount
  with assms show ?thesis by (simp only: pending_ok_unmount)
qed

lemma pending_ok_run: "pending_ok a \<Longrightarrow> pending_ok (run es a)"
  unfolding run_def by (induction es arbitrary: a) (simp_all add: pending_ok_step)

section \<open>Claims about one invocation of processFrame\<close>

lemma count_request:
  "RequestAnimationFrame \<notin> set draws \<Longrightarrow>
   count_list (draws @ [RequestAnimationFrame]) RequestAnimationFrame = 1"
  by (simp add: count_list_0_iff)

text \<open>
  Claim C4. Every invocation of \<open>processFrame\<close> ends by requesting its successor and
  requests it exactly once, whatever the refs hold; when the video element or the canvas
  is missing, the frame is not fully decoded or no 2D context is given, it issues nothing
  else (no drawing, nothing buffered). In the running component at most one cycle is
  pending at any time, so cycles never overlap.
\<close>

theorem processFrame_schedules_one_successor:
  "last (processFrame s m env v c) = RequestAnimationFrame
   \<and> count_list (processFrame s m env v c) RequestAnimationFrame = 1
   \<and> (v = None \<or> c = None \<or> (\<exists>video. v = Some video \<and> readyState video \<noteq> 4)
        \<or> (\<exists>canvas. c = Some canvas \<and> \<not> context2d canvas)
      \<longrightarrow> processFrame s m env v c = [RequestAnimationFrame])
   \<and> length (callbacks (run es (mount ctx))) \<le> 1"
proof -
  obtain draws where d: "processFrame s m env v c = draws @ [RequestAnimationFrame]"
    and n: "RequestAnimationFrame \<notin> set draws"
    using processFrame_shape by blast
  have "last (processFrame s m env v c) = RequestAnimationFrame"
    unfolding d by simp
  moreover have "count_list (processFrame s m env v c) RequestAnimationFrame = 1"
    unfolding d using n by (rule count_request)
  moreover have "v = None \<or> c = None \<or> (\<exists>video. v = Some video \<and> readyState video \<noteq> 4)
        \<or> (\<exists>canvas. c = Some canvas \<and> \<not> context2d canvas)
      \<longrightarrow> processFrame s m env v c = [RequestAnimationFrame]"
    by (auto simp: processFrame_def split: option.splits)
  moreover have "length (callbacks (run es (mount ctx))) \<le> 1"
    using pending_ok_run [OF pending_ok_mount, of es ctx] by (simp add: pending_ok_def)
  ultimately show ?thesis by blast
qed

theorem processFrame_schedules_one_successor_witness:
  "processFrame INITIAL_SETTINGS Relief still_env
     (Some \<lparr>readyState = 2, videoWidth = 640, videoHeight = 480, srcObject = Some [7]\<rparr>)
     (Some \<lparr>width = 1920, height = 1080, context2d = True\<rparr>) = [RequestAnimationFrame]
   \<and> length (callbacks (run [AnimationFrame still_env, UpdateSetting INITIAL_SETTINGS]
        (mount True))) \<le> 1"
  using processFrame_schedules_one_successor [of INITIAL_SETTINGS Relief still_env
      "Some \<lparr>readyState = 2, videoWidth = 640, videoHeight = 480, srcObject = Some [7]\<rparr>"
      "Some \<lparr>width = 1920, height = 1080, context2d = True\<rparr>"
      "[AnimationFrame still_env, UpdateSetting INITIAL_SETTINGS]" True]
  by simp

text \<open>
  Claim C7. In the standard pipeline (camera and scan modes) the video frame is drawn once
  under one combined filter: brightness, contrast and saturation percentages are the
  settings' fields as they are, the blur radius is the bokeh setting divided by 40, and
  the LUT selector appends a hue rotation with a saturation boost for \<open>cine-teal\<close>, a
  sepia with a contrast and brightness shift for \<open>vintage\<close>, and nothing otherwise.
\<close>

theorem base_grade_filter:
  "filters s =
     [Txt ''brightness('', Num (brightness s), Txt ''%) contrast('', Num (contrast s),
      Txt ''%) saturate('', Num (saturation s), Txt ''%) blur('', Num (bokeh s / 40),
      Txt ''px)'']
     @ (case lut s of
          LutNone \<Rightarrow> []
        | LogC \<Rightarrow> []
        | CineTeal \<Rightarrow> [Txt '' hue-rotate(180deg) saturate(130%)'']
        | Vintage \<Rightarrow> [Txt '' sepia(40%) contrast(90%) brightness(95%)''])
   \<and> take 4 (draw s Camera env canvas) =
       [SetFilter [Txt ''none''], SetGlobalCompositeOperation ''source-over'',
        SetFilter (filters s), DrawImageVideo 0 0 (width canvas) (height canvas)]
   \<and> take 4 (draw s Scan env canvas) =
       [SetFilter [Txt ''none''], SetGlobalCompositeOperation ''source-over'',
        SetFilter (filters s), DrawImageVideo 0 0 (width canvas) (height canvas)]"
  by (cases "lut s") (simp_all add: filters_def draw_def base_grade_def)

text \<open>
  Claim C9. Two settings snapshots that agree on brightness, contrast, saturation, bokeh,
  glow and lut make \<open>processFrame\<close> issue the same calls for the same refs, mode, image
  data and random results: exposure, iso, shutterSpeed, whiteBalance, stabilization,
  upscale and hdr are never read.
\<close>

theorem unused_settings_do_not_affect_frame:
  assumes "brightness s1 = brightness s2" and "contrast s1 = contrast s2"
    and "saturation s1 = saturation s2" and "bokeh s1 = bokeh s2"
    and "glow s1 = glow s2" and "lut s1 = lut s2"
  shows "processFrame s1 m env v c = processFrame s2 m env v c"
proof -
  have "filters s1 = filters s2" and "glow_stage s1 = glow_stage s2"
    using assms by (simp_all add: filters_def glow_stage_def)
  then have "draw s1 m env canvas = draw s2 m env canvas" for canvas
    by (simp add: draw_def base_grade_def)
  then show ?thesis
    by (simp add: processFrame_def split: option.splits)
qed

theorem unused_settings_do_not_affect_frame_witness:
  "processFrame INITIAL_SETTINGS Scan still_env
     (Some \<lparr>readyState = 4, videoWidth = 640, videoHeight = 480, srcObject = Some [7]\<rparr>)
     (Some \<lparr>width = 640, height = 480, context2d = True\<rparr>)
   = processFrame
       (INITIAL_SETTINGS\<lparr>exposure := 5, iso := 100, shutterSpeed := ''1/100'',
          whiteBalance := 3200, stabilization := False, upscale := False, hdr := False\<rparr>)
       Scan still_env
       (Some \<lparr>readyState = 4, videoWidth = 640, videoHeight = 480, srcObject = Some [7]\<rparr>)
       (Some \<lparr>width = 640, height = 480, context2d = True\<rparr>)"
  by (rule unused_settings_do_not_affect_frame) simp_all

text \<open>
  Claim C10. The LUT style \<open>log-c\<close> behaves as \<open>none\<close>: with everything else fixed the
  filter template, hence the filter string under any number formatting, and all calls of
  the cycle are the same.
\<close>

theorem lut_log_c_equals_none:
  "filters (s\<lparr>lut := LogC\<rparr>) = filters (s\<lparr>lut := LutNone\<rparr>)
   \<and> render fmt (filters (s\<lparr>lut := LogC\<rparr>)) = render fmt (filters (s\<lparr>lut := LutNone\<rparr>))
   \<and> processFrame (s\<lparr>lut := LogC\<rparr>) m env v c = processFrame (s\<lparr>lut := LutNone\<rparr>) m env v c"
proof -
  have f: "filters (s\<lparr>lut := LogC\<rparr>) = filters (s\<lparr>lut := LutNone\<rparr>)"
    by (simp add: filters_def)
  have "draw (s\<lparr>lut := LogC\<rparr>) m env canvas = draw (s\<lparr>lut := LutNone\<rparr>) m env canvas"
    for canvas
    by (simp add: draw_def base_grade_def glow_stage_def f)
  then have "processFrame (s\<lparr>lut := LogC\<rparr>) m env v c
      = processFrame (s\<lparr>lut := LutNone\<rparr>) m env v c"
    by (simp add: processFrame_def split: option.splits)
  with f show ?thesis by simp
qed

text \<open>
  The glow stage issues nothing when the glow strength is not positive: the cycle is then
  the reset, the base grade, the scan grid in scan mode and the histogram test.
\<close>

lemma glow_zero_no_op:
  assumes "glow s \<le> 0" and "m \<noteq> Relief"
  shows "draw s m env canvas =
     [SetFilter [Txt ''none''], SetGlobalCompositeOperation ''source-over'']
     @ base_grade s (width canvas) (height canvas)
     @ (if m = Scan then scan_overlay (random env) (width canvas) (height canvas) else [])
     @ (if random env (randoms_drawn m) > 85 / 100 then [SetHistogramData] else [])"
  using assms by (simp add: draw_def glow_stage_def)

section \<open>Wireframe displacement\<close>

lemma pixel_index_in_range:
  fixes x y w h :: nat
  assumes "x < w" and "y < h"
  shows "(y * w + x) * 4 + 3 < 4 * w * h"
proof -
  have "y * w + x < Suc y * w" using assms(1) by simp
  also have "\<dots> \<le> h * w" using assms(2) by (intro mult_le_mono1) simp
  finally have "y * w + x < w * h" by (simp add: mult.commute)
  then show ?thesis by simp
qed

lemma uniformD:
  assumes "uniform c data" and "i < length data" and "i mod 4 \<noteq> 3"
  shows "data ! i = c"
  using assms by (auto simp: uniform_def list_all_iff)

lemma uniform_pixel_brightness:
  assumes "uniform c data" and "length data = 4 * w * h" and "x < w" and "y < h"
  shows "pixel_brightness data ((y * w + x) * 4) = Some (of_nat (unat c))"
proof -
  define idx where "idx = (y * w + x) * 4"
  have r: "idx + 3 < length data"
    using pixel_index_in_range [OF assms(3,4)] assms(2) by (simp add: idx_def)
  have "idx mod 4 = 0" by (simp add: idx_def)
  then have m: "idx mod 4 \<noteq> 3" "(idx + 1) mod 4 \<noteq> 3" "(idx + 2) mod 4 \<noteq> 3"
    by presburger+
  have "data ! idx = c" "data ! (idx + 1) = c" "data ! (idx + 2) = c"
    using r m by (simp_all add: uniformD [OF assms(1)])
  with r show ?thesis
    unfolding idx_def [symmetric] by (simp add: pixel_brightness_def sample_def)
qed

lemma uniform_relief_row:
  "uniform c data \<Longrightarrow> length data = 4 * w * h \<Longrightarrow> y < h \<Longrightarrow>
   relief_row data w y x = displaced_row (of_nat (unat c) / 255 * (- 40)) w y x"
proof (induction data w y x rule: relief_row.induct)
  case (1 data w y x)
  show ?case
  proof (cases "x < w")
    case True
    have pb: "pixel_brightness data ((y * w + x) * 4) = Some (of_nat (unat c))"
      using uniform_pixel_brightness [OF "1.prems"(1,2) True "1.prems"(3)] .
    have ih: "relief_row data w y (x + step)
              = displaced_row (of_nat (unat c) / 255 * (- 40)) w y (x + step)"
      using "1.IH" True "1.prems" by simp
    show ?thesis
      using pb
      by (subst relief_row.simps, subst displaced_row.simps)
         (auto simp: True Let_def offset_def ih)
  next
    case False
    then show ?thesis
      by (subst relief_row.simps, subst displaced_row.simps) simp
  qed
qed

lemma uniform_relief_rows:
  "uniform c data \<Longrightarrow> length data = 4 * w * h \<Longrightarrow>
   relief_rows data w h y = displaced_rows (of_nat (unat c) / 255 * (- 40)) w h y"
proof (induction data w h y rule: relief_rows.induct)
  case (1 data w h y)
  show ?case
  proof (cases "y < h")
    case True
    have ih: "relief_rows data w h (y + step)
              = displaced_rows (of_nat (unat c) / 255 * (- 40)) w h (y + step)"
      using "1.IH" True "1.prems" by simp
    show ?thesis
      by (subst relief_rows.simps, subst displaced_rows.simps)
         (simp add: True ih uniform_relief_row [OF "1.prems" True])
  next
    case False
    then show ?thesis
      by (subst relief_rows.simps, subst displaced_rows.simps) simp
  qed
qed

lemma sample_range:
  assumes "sample data i = Some v"
  shows "0 \<le> v \<and> v \<le> 255"
proof -
  from assms have v: "v = of_nat (unat (data ! i))"
    by (simp add: sample_def split: if_splits)
  have "unat (data ! i) < 256"
    using unsigned_less [of "data ! i", where ?'a = nat] by simp
  then have "unat (data ! i) \<le> 255" by simp
  then have "(of_nat (unat (data ! i)) :: rat) \<le> of_nat 255"
    by (rule of_nat_mono)
  then have "(of_nat (unat (data ! i)) :: rat) \<le> 255"
    by (simp only: of_nat_numeral)
  moreover have "(0::rat) \<le> of_nat (unat (data ! i))"
    by (rule of_nat_0_le_iff)
  ultimately show ?thesis unfolding v by (rule conjI [rotated])
qed

lemma pixel_brightness_range:
  assumes "pixel_brightness data idx = Some pb"
  shows "0 \<le> pb \<and> pb \<le> 255"
proof (cases "sample data idx")
  case None
  with assms show ?thesis by (simp add: pixel_brightness_def)
next
  case r: (Some r)
  show ?thesis
  proof (cases "sample data (idx + 1)")
    case None
    with assms r show ?thesis by (simp add: pixel_brightness_def)
  next
    case g: (Some g)
    show ?thesis
    proof (cases "sample data (idx + 2)")
      case None
      with assms r g show ?thesis by (simp add: pixel_brightness_def)
    next
      case b: (Some b)
      from assms r g b have pb: "pb = (r + g + b) / 3"
        by (simp add: pixel_brightness_def)
      from sample_range [OF r] sample_range [OF g] sample_range [OF b]
      show ?thesis unfolding pb by simp
    qed
  qed
qed

lemma offset_bounds:
  assumes "offset (pixel_brightness data idx) = Some d"
  shows "- 40 \<le> d \<and> d \<le> 0"
proof -
  from assms obtain pb where pb: "pixel_brightness data idx = Some pb"
    and d: "d = pb / 255 * (- 40)"
    by (auto simp: offset_def)
  from pixel_brightness_range [OF pb] show ?thesis unfolding d by simp
qed

lemma offset_formula:
  assumes "sample data idx = Some r" and "sample data (idx + 1) = Some g"
    and "sample data (idx + 2) = Some b"
  shows "offset (pixel_brightness data idx) = Some (- (((r + g + b) / 3) / 255 * 40))"
  using assms by (simp add: offset_def pixel_brightness_def)

text \<open>
  Claim C6. In the wireframe pipeline (mode \<open>relief\<close> of this component) the upward
  offset of a sampled point is the average of its three colour bytes, divided by 255,
  times 40. For image data of a \<open>w\<close> by \<open>h\<close> canvas that is uniformly black the rows
  emitted are those with displacement 0 at every sampled point; for uniformly white data
  they are those with displacement 40 upwards (\<open>y - 40\<close>) at every sampled point; and 40
  is the largest magnitude any point can get. At black and at white the arithmetic is
  exact in double precision as well, so the rational model agrees with the code there.
\<close>

theorem wireframe_displacement_black_and_white:
  assumes "length data = 4 * w * h"
  shows "(uniform 0 data \<longrightarrow> relief_rows data w h 0 = displaced_rows 0 w h 0)
    \<and> (uniform 255 data \<longrightarrow> relief_rows data w h 0 = displaced_rows (- 40) w h 0)
    \<and> (\<forall>idx r g b. sample data idx = Some r \<and> sample data (idx + 1) = Some g
          \<and> sample data (idx + 2) = Some b
          \<longrightarrow> offset (pixel_brightness data idx) = Some (- (((r + g + b) / 3) / 255 * 40)))
    \<and> (\<forall>idx d. offset (pixel_brightness data idx) = Some d \<longrightarrow> - 40 \<le> d \<and> d \<le> 0)"
proof (intro conjI impI allI)
  assume "uniform 0 data"
  from uniform_relief_rows [OF this assms, of 0]
  show "relief_rows data w h 0 = displaced_rows 0 w h 0" by simp
next
  assume "uniform 255 data"
  from uniform_relief_rows [OF this assms, of 0]
  show "relief_rows data w h 0 = displaced_rows (- 40) w h 0" by simp
next
  fix idx r g b
  assume "sample data idx = Some r \<and> sample data (idx + 1) = Some g
          \<and> sample data (idx + 2) = Some b"
  then show "offset (pixel_brightness data idx) = Some (- (((r + g + b) / 3) / 255 * 40))"
    by (simp add: offset_formula)
next
  fix idx d
  assume "offset (pixel_brightness data idx) = Some d"
  then show "- 40 \<le> d" and "d \<le> 0" using offset_bounds by blast+
qed

theorem wireframe_displacement_black_and_white_witness:
  "relief_rows (replicate 168 0) 21 2 0
     = [BeginPath, MoveTo 0 (Some 0), LineTo 20 (Some 0), Stroke]
   \<and> relief_rows (replicate 168 255) 21 2 0
     = [BeginPath, MoveTo 0 (Some (- 40)), LineTo 20 (Some (- 40)), Stroke]"
proof -
  have len: "length (replicate 168 (c :: 8 word)) = 4 * 21 * 2" for c by simp
  have uni: "uniform c (replicate 168 c)" for c
    by (simp add: uniform_def list_all_iff)
  have row: "displaced_row d 21 0 0 = [MoveTo 0 (Some d), LineTo 20 (Some d)]" for d
    by (simp add: displaced_row.simps step_def)
  have rows: "displaced_rows d 21 2 0 = [BeginPath, MoveTo 0 (Some d), LineTo 20 (Some d), Stroke]"
    for d
    by (simp add: displaced_rows.simps row step_def)
  from wireframe_displacement_black_and_white [OF len [of 0]] uni [of 0]
  have "relief_rows (replicate 168 0) 21 2 0 = displaced_rows 0 21 2 0" by blast
  moreover
  from wireframe_displacement_black_and_white [OF len [of 255]] uni [of 255]
  have "relief_rows (replicate 168 255) 21 2 0 = displaced_rows (- 40) 21 2 0" by blast
  ultimately show ?thesis by (simp add: rows)
qed

section \<open>Claims about the Analysis Bridge\<close>

lemma analyzeFrame_cases:
  "analyzeFrame P G img =
     (case attempt P (G (frame_request img)) of Inr v \<Rightarrow> Inr v | Inl e \<Rightarrow> Inr scene_default)"
  by (simp add: analyzeFrame_def)

lemma analyzeTopology_cases:
  "analyzeTopology P G img =
     (case attempt P (G (topology_request img)) of
        Inr v \<Rightarrow> Inr v | Inl e \<Rightarrow> Inr topology_default)"
  by (simp add: analyzeTopology_def)

lemma attempt_failures:
  "attempt P (Throws e) = Inl e"
  "attempt P (Rejects e) = Inl e"
  "attempt P (Responds (TextRaises e)) = Inl e"
  "t \<noteq> [] \<Longrightarrow> P t = None \<Longrightarrow> attempt P (Responds (TextString t)) = Inl ''SyntaxError''"
  by (simp_all add: attempt_def parse_or_throw_def)

lemma attempt_empty:
  assumes "P ''{}'' = Some v"
  shows "attempt P (Responds (TextString ''{}'')) = Inr v"
    and "attempt P (Responds (TextString [])) = Inr v"
    and "attempt P (Responds TextUndefined) = Inr v"
  using assms by (simp_all add: attempt_def parse_or_throw_def)

text \<open>
  Claim C1. Whatever the image, the behaviour of the external call and the parser,
  \<open>analyzeFrame\<close> and \<open>analyzeTopology\<close> resolve. When the call throws, the promise
  rejects, reading the response text raises, or the body does not parse, \<open>analyzeFrame\<close>
  resolves with the scene default and \<open>analyzeTopology\<close> with the topology default,
  field for field as the spec lists them.
\<close>

theorem analysis_bridge_never_rejects:
  "(\<exists>v. analyzeFrame P G img = Inr v) \<and> (\<exists>v. analyzeTopology P G img = Inr v)
   \<and> (G (frame_request img) = Throws e \<or> G (frame_request img) = Rejects e
        \<or> G (frame_request img) = Responds (TextRaises e)
        \<or> (G (frame_request img) = Responds (TextString t) \<and> t \<noteq> [] \<and> P t = None)
      \<longrightarrow> analyzeFrame P G img =
            Inr (JObject [(''luminance'', JNumber 50), (''colorTemp'', JString ''Neutral''),
                          (''detectedObjects'', JArray []),
                          (''suggestions'', JString ''Awaiting input'')]))
   \<and> (G (topology_request img) = Throws e \<or> G (topology_request img) = Rejects e
        \<or> G (topology_request img) = Responds (TextRaises e)
        \<or> (G (topology_request img) = Responds (TextString t) \<and> t \<noteq> [] \<and> P t = None)
      \<longrightarrow> analyzeTopology P G img =
            Inr (JObject [(''vertices'', JNumber 0), (''topologyScore'', JNumber 0),
                          (''uvStatus'', JString ''Error''), (''defects'', JArray []),
                          (''suggestedFix'', JString ''Reposition for better lighting'')]))"
proof (intro conjI impI)
  show "\<exists>v. analyzeFrame P G img = Inr v"
    by (simp add: analyzeFrame_cases split: sum.splits)
  show "\<exists>v. analyzeTopology P G img = Inr v"
    by (simp add: analyzeTopology_cases split: sum.splits)
next
  assume "G (frame_request img) = Throws e \<or> G (frame_request img) = Rejects e
        \<or> G (frame_request img) = Responds (TextRaises e)
        \<or> (G (frame_request img) = Responds (TextString t) \<and> t \<noteq> [] \<and> P t = None)"
  then have "\<exists>x. attempt P (G (frame_request img)) = Inl x"
    by (auto simp: attempt_failures)
  then show "analyzeFrame P G img =
            Inr (JObject [(''luminance'', JNumber 50), (''colorTemp'', JString ''Neutral''),
                          (''detectedObjects'', JArray []),
                          (''suggestions'', JString ''Awaiting input'')])"
    by (auto simp: analyzeFrame_cases scene_default_def)
next
  assume "G (topology_request img) = Throws e \<or> G (topology_request img) = Rejects e
        \<or> G (topology_request img) = Responds (TextRaises e)
        \<or> (G (topology_request img) = Responds (TextString t) \<and> t \<noteq> [] \<and> P t = None)"
  then have "\<exists>x. attempt P (G (topology_request img)) = Inl x"
    by (auto simp: attempt_failures)
  then show "analyzeTopology P G img =
            Inr (JObject [(''vertices'', JNumber 0), (''topologyScore'', JNumber 0),
                          (''uvStatus'', JString ''Error''), (''defects'', JArray []),
                          (''suggestedFix'', JString ''Reposition for better lighting'')])"
    by (auto simp: analyzeTopology_cases topology_default_def)
qed

theorem analysis_bridge_never_rejects_witness:
  "analyzeFrame parse_braces rejecting ''/9j/4AAQ'' =
     Inr (JObject [(''luminance'', JNumber 50), (''colorTemp'', JString ''Neutral''),
                   (''detectedObjects'', JArray []),
                   (''suggestions'', JString ''Awaiting input'')])
   \<and> analyzeTopology parse_braces rejecting ''/9j/4AAQ'' =
     Inr (JObject [(''vertices'', JNumber 0), (''topologyScore'', JNumber 0),
                   (''uvStatus'', JString ''Error''), (''defects'', JArray []),
                   (''suggestedFix'', JString ''Reposition for better lighting'')])"
  using analysis_bridge_never_rejects [of parse_braces rejecting "''/9j/4AAQ''" "''network''"]
  by (simp add: rejecting_def)

text \<open>
  Claim C3. When the request succeeds and the response text is \<open>{}\<close>, is empty or is
  undefined, and the parser reads \<open>{}\<close> as the empty object, both functions resolve with
  that empty object: every field of the result is undefined, and it is not the default
  of either kind.
\<close>

theorem empty_response_is_not_defaulted:
  assumes "P ''{}'' = Some (JObject [])"
    and "G (frame_request img) \<in>
           {Responds (TextString ''{}''), Responds (TextString []), Responds TextUndefined}"
    and "G (topology_request img) \<in>
           {Responds (TextString ''{}''), Responds (TextString []), Responds TextUndefined}"
  shows "analyzeFrame P G img = Inr (JObject [])
    \<and> analyzeTopology P G img = Inr (JObject [])
    \<and> (\<forall>k. field_of (JObject []) k = None)
    \<and> JObject [] \<noteq> scene_default \<and> JObject [] \<noteq> topology_default"
proof -
  have "attempt P (G (frame_request img)) = Inr (JObject [])"
    using assms(2) attempt_empty [of P, OF assms(1)] by auto
  moreover have "attempt P (G (topology_request img)) = Inr (JObject [])"
    using assms(3) attempt_empty [of P, OF assms(1)] by auto
  ultimately show ?thesis
    by (simp add: analyzeFrame_cases analyzeTopology_cases field_of_def scene_default_def
        topology_default_def)
qed

theorem empty_response_is_not_defaulted_witness:
  "analyzeFrame parse_braces answering_empty ''/9j/4AAQ'' = Inr (JObject [])
   \<and> analyzeTopology parse_braces answering_empty ''/9j/4AAQ'' = Inr (JObject [])"
proof -
  have p: "parse_braces ''{}'' = Some (JObject [])" by (simp add: parse_braces_def)
  have g: "answering_empty r \<in>
      {Responds (TextString ''{}''), Responds (TextString []), Responds TextUndefined}" for r
    by (simp add: answering_empty_def)
  from empty_response_is_not_defaulted [of parse_braces answering_empty, OF p g g] show ?thesis by blast
qed

section \<open>Claims about the life cycle\<close>

lemma run_Nil: "run [] a = a"
  by (simp add: run_def)

lemma run_Cons: "run (e # es) a = run es (app_step a e)"
  by (simp add: run_def)

lemmas eval_defs = run_Nil run_Cons initCamera_def mount_def
  requestAnimationFrame_def run_handler_def run_callback_eq Let_def

lemma camera_cleanup_fields:
  "videoRef (camera_cleanup a) = videoRef a"
  "canvasRef (camera_cleanup a) = canvasRef a"
  "cycles (camera_cleanup a) = cycles a"
  "mounted (camera_cleanup a) = mounted a"
  by (simp_all add: camera_cleanup_def split: option.splits)

lemma run_callback_fields:
  "videoRef (run_callback env cb a) = videoRef a"
  "canvasRef (run_callback env cb a) = canvasRef a"
  "mounted (run_callback env cb a) = mounted a"
  "stopped (run_callback env cb a) = stopped a"
  "onloadedmetadata (run_callback env cb a) = onloadedmetadata a"
  by (simp_all add: run_callback_eq requestAnimationFrame_def)

lemma run_callbacks_fields:
  "videoRef (foldl (\<lambda>b p. run_callback env (snd p) b) a ps) = videoRef a
   \<and> canvasRef (foldl (\<lambda>b p. run_callback env (snd p) b) a ps) = canvasRef a
   \<and> mounted (foldl (\<lambda>b p. run_callback env (snd p) b) a ps) = mounted a
   \<and> stopped (foldl (\<lambda>b p. run_callback env (snd p) b) a ps) = stopped a"
  by (induction ps arbitrary: a) (simp_all add: run_callback_fields)

lemma step_keeps_stopped:
  assumes "e \<noteq> Unmount"
  shows "stopped (app_step a e) = stopped a \<and> mounted (app_step a e) = mounted a"
proof (cases e)
  case (CameraResolved outcome)
  then show ?thesis
    by (simp add: initCamera_def Let_def split: camera_outcome.splits option.splits)
next
  case (LoadedMetadata w h)
  then show ?thesis
    by (simp add: run_handler_def Let_def split: option.splits handler.splits)
next
  case (AnimationFrame env)
  then show ?thesis by (simp add: run_callbacks_fields)
next
  case (UpdateSetting s)
  then show ?thesis
    by (simp add: rerender_def requestAnimationFrame_def schedule_cleanup_fields)
next
  case (SetMode m)
  then show ?thesis
    by (simp add: rerender_def requestAnimationFrame_def schedule_cleanup_fields)
next
  case Unmount
  with assms show ?thesis by simp
qed simp_all

lemma run_keeps_stopped:
  "Unmount \<notin> set es \<Longrightarrow> stopped (run es a) = stopped a \<and> mounted (run es a) = mounted a"
proof (induction es arbitrary: a)
  case Nil
  show ?case by (simp add: run_Nil)
next
  case (Cons e es)
  then have "e \<noteq> Unmount" and "Unmount \<notin> set es" by auto
  with Cons.IH [of "app_step a e"] step_keeps_stopped [of e a]
  show ?case by (simp add: run_Cons)
qed

lemma unmounted_step:
  assumes "\<not> mounted a" and "callbacks a = []"
  shows "\<not> mounted (app_step a e) \<and> callbacks (app_step a e) = []
    \<and> cycles (app_step a e) = cycles a \<and> stopped (app_step a e) = stopped a"
proof (cases e)
  case (CameraResolved outcome)
  with assms show ?thesis
    by (simp add: initCamera_def Let_def split: camera_outcome.splits option.splits)
next
  case (LoadedMetadata w h)
  with assms show ?thesis
    by (simp add: run_handler_def Let_def split: option.splits handler.splits)
next
  case (AnimationFrame env)
  with assms show ?thesis by simp
qed (use assms in simp_all)

lemma unmounted_run:
  "\<not> mounted a \<Longrightarrow> callbacks a = [] \<Longrightarrow>
   callbacks (run es a) = [] \<and> cycles (run es a) = cycles a \<and> stopped (run es a) = stopped a"
proof (induction es arbitrary: a)
  case Nil
  then show ?case by (simp add: run_Nil)
next
  case (Cons e es)
  from unmounted_step [OF Cons.prems, of e] Cons.IH [of "app_step a e"]
  show ?case by (simp add: run_Cons)
qed

lemma unmount_stops_no_track: "stopped (app_step a Unmount) = stopped a"
  by (simp add: schedule_cleanup_fields camera_cleanup_def)

lemma no_track_is_ever_stopped: "stopped (run es a) = stopped a"
proof (induction es arbitrary: a)
  case Nil
  show ?case by (simp add: run_Nil)
next
  case (Cons e es)
  have "stopped (app_step a e) = stopped a"
  proof (cases "e = Unmount")
    case True
    then show ?thesis by (simp only: unmount_stops_no_track)
  next
    case False
    then show ?thesis using step_keeps_stopped by blast
  qed
  with Cons.IH [of "app_step a e"] show ?case by (simp add: run_Cons)
qed

text \<open>
  The scheduling half of teardown: the cleanup of line 204 cancels the handle in
  \<open>requestRef\<close>, which is the only pending callback, so nothing is pending after the
  unmount and whatever happens later no cycle runs.
\<close>

lemma unmount_cancels_pending_cycle:
  assumes "Unmount \<notin> set es"
  shows "callbacks (app_step (run es (mount ctx)) Unmount) = []
    \<and> (\<forall>es'. callbacks (run es' (app_step (run es (mount ctx)) Unmount)) = []
          \<and> cycles (run es' (app_step (run es (mount ctx)) Unmount))
              = cycles (run es (mount ctx)))"
proof -
  define a where "a = run es (mount ctx)"
  define a' where "a' = app_step a Unmount"
  have ok: "pending_ok a"
    unfolding a_def by (rule pending_ok_run [OF pending_ok_mount])
  have "stopped a = stopped (mount ctx) \<and> mounted a = mounted (mount ctx)"
    unfolding a_def by (rule run_keeps_stopped [OF assms])
  then have mo: "mounted a"
    by (simp add: mount_def requestAnimationFrame_def)
  have "pending_ok a'"
    unfolding a'_def by (rule pending_ok_step [OF ok])
  moreover have um: "\<not> mounted a'"
    using mo by (simp add: a'_def)
  ultimately have cb: "callbacks a' = []"
    by (simp add: pending_ok_def)
  have cy: "cycles a' = cycles a"
    using mo by (simp add: a'_def schedule_cleanup_fields camera_cleanup_fields)
  have later: "callbacks (run es' a') = [] \<and> cycles (run es' a') = cycles a" for es'
    using unmounted_run [OF um cb, of es'] cy by simp
  from cb later show ?thesis
    unfolding a'_def a_def by blast
qed

text \<open>
  Claim C8. Teardown is to stop every track of the camera stream once and to cancel the
  pending cycle. The code cancels the cycle, but it stops no track: the camera cleanup
  (lines 103-108) looks the stream up through \<open>videoRef.current\<close> at the moment it
  runs, when the ref is already null. In the run below the first request gives a stream
  with the tracks 1 and 2, the video plays and one cycle is drawn; at unmount the stream
  is still attached to the video element, no \<open>stop\<close> call is made and no callback is
  left pending.
\<close>

theorem teardown_stops_no_track:
  "map_option srcObject
     (videoRef (run [CameraResolved (IdealStream [1, 2]), LoadedMetadata 1920 1080,
        CanPlayThrough, AnimationFrame still_env] (mount True))) = Some (Some [1, 2])
   \<and> stopped (app_step (run [CameraResolved (IdealStream [1, 2]), LoadedMetadata 1920 1080,
        CanPlayThrough, AnimationFrame still_env] (mount True)) Unmount) = []
   \<and> callbacks (app_step (run [CameraResolved (IdealStream [1, 2]), LoadedMetadata 1920 1080,
        CanPlayThrough, AnimationFrame still_env] (mount True)) Unmount) = []"
proof -
  have v: "videoRef (run [CameraResolved (IdealStream [1, 2]), LoadedMetadata 1920 1080,
         CanPlayThrough, AnimationFrame still_env] (mount True))
      = Some \<lparr>readyState = 4, videoWidth = 1920, videoHeight = 1080, srcObject = Some [1, 2]\<rparr>"
    by (simp add: eval_defs)
  have s: "stopped (app_step (run [CameraResolved (IdealStream [1, 2]),
         LoadedMetadata 1920 1080, CanPlayThrough, AnimationFrame still_env] (mount True))
         Unmount) = []"
    by (simp only: unmount_stops_no_track no_track_is_ever_stopped)
       (simp add: mount_def requestAnimationFrame_def)
  have n: "Unmount \<notin> set [CameraResolved (IdealStream [1, 2]), LoadedMetadata 1920 1080,
         CanPlayThrough, AnimationFrame still_env]"
    by simp
  from unmount_cancels_pending_cycle [OF n, of True] v s show ?thesis
    by simp
qed

section \<open>Canvas size and source resolution\<close>

lemma processFrame_drawn_at:
  "list_all (drawn_at (width canvas) (height canvas)) (processFrame s m env v (Some canvas))"
  unfolding list_all_iff
proof
  fix e
  assume e: "e \<in> set (processFrame s m env v (Some canvas))"
  show "drawn_at (width canvas) (height canvas) e"
  proof (cases e)
    case (DrawImageVideo x y dw dh)
    with e processFrame_video_dims [of x y dw dh s m env v canvas] show ?thesis by simp
  qed simp_all
qed

lemma run_callback_cycle:
  assumes "synced w h (videoRef a) (canvasRef a)"
  shows "\<exists>cy. cycles (run_callback env cb a) = cycles a @ [cy] \<and> cycle_at w h cy"
proof -
  from assms obtain video canvas where v: "videoRef a = Some video"
    and c: "canvasRef a = Some canvas" and d: "width canvas = w" "height canvas = h"
    by (auto simp: synced_def split: option.splits)
  have "list_all (drawn_at w h) (processFrame (fst cb) (snd cb) env (videoRef a) (canvasRef a))"
    unfolding c using processFrame_drawn_at [of canvas] d by simp
  with assms show ?thesis
    by (simp add: run_callback_eq requestAnimationFrame_def cycle_at_def)
qed

lemma run_callbacks_cycles:
  "synced w h (videoRef a) (canvasRef a) \<Longrightarrow>
   \<exists>new. cycles (foldl (\<lambda>b p. run_callback env (snd p) b) a ps) = cycles a @ new
     \<and> list_all (cycle_at w h) new"
proof (induction ps arbitrary: a)
  case Nil
  show ?case by simp
next
  case (Cons p ps)
  from run_callback_cycle [OF Cons.prems, of env "snd p"]
  obtain cy where cy: "cycles (run_callback env (snd p) a) = cycles a @ [cy]" "cycle_at w h cy"
    by blast
  have "synced w h (videoRef (run_callback env (snd p) a)) (canvasRef (run_callback env (snd p) a))"
    using Cons.prems by (simp add: run_callback_fields)
  from Cons.IH [OF this] obtain new where
    "cycles (foldl (\<lambda>b p. run_callback env (snd p) b) (run_callback env (snd p) a) ps)
       = cycles (run_callback env (snd p) a) @ new" "list_all (cycle_at w h) new"
    by blast
  with cy show ?case by simp
qed

lemma synced_step:
  assumes "synced w h (videoRef a) (canvasRef a)" and "keeps_resolution e"
    and "e \<noteq> Unmount"
  shows "synced w h (videoRef (app_step a e)) (canvasRef (app_step a e))
    \<and> (\<exists>new. cycles (app_step a e) = cycles a @ new \<and> list_all (cycle_at w h) new)"
proof (cases e)
  case (CameraResolved outcome)
  with assms(1) show ?thesis
    by (auto simp: initCamera_def Let_def synced_def
        split: camera_outcome.splits option.splits)
next
  case CanPlayThrough
  with assms(1) show ?thesis
    by (auto simp: synced_def split: option.splits)
next
  case (AnimationFrame env)
  have s: "synced w h (videoRef (a\<lparr>callbacks := []\<rparr>)) (canvasRef (a\<lparr>callbacks := []\<rparr>))"
    using assms(1) by simp
  from run_callbacks_cycles [OF s, of env "callbacks a"] assms(1) AnimationFrame
  show ?thesis by (simp add: run_callbacks_fields)
next
  case (UpdateSetting s)
  with assms(1) show ?thesis
    by (simp add: rerender_def requestAnimationFrame_def schedule_cleanup_fields)
next
  case (SetMode m)
  with assms(1) show ?thesis
    by (simp add: rerender_def requestAnimationFrame_def schedule_cleanup_fields)
qed (use assms(2,3) in simp_all)

lemma tracked_step:
  assumes "pending_ok a" and "mounted a \<longrightarrow> synced w h (videoRef a) (canvasRef a)"
    and "keeps_resolution e"
  shows "(mounted (app_step a e)
            \<longrightarrow> synced w h (videoRef (app_step a e)) (canvasRef (app_step a e)))
    \<and> (\<exists>new. cycles (app_step a e) = cycles a @ new \<and> list_all (cycle_at w h) new)"
proof (cases "mounted a")
  case True
  show ?thesis
  proof (cases "e = Unmount")
    case u: True
    have "\<not> mounted (app_step a Unmount)" "cycles (app_step a Unmount) = cycles a"
      using True by (simp_all add: schedule_cleanup_fields camera_cleanup_fields)
    with u show ?thesis by simp
  next
    case False
    from synced_step [OF _ assms(3) False, of w h a] assms(2) True
    show ?thesis by blast
  qed
next
  case False
  with assms(1) have "callbacks a = []" by (simp add: pending_ok_def)
  from unmounted_step [OF False this, of e] show ?thesis by simp
qed

lemma tracked_run:
  "pending_ok a \<Longrightarrow> mounted a \<longrightarrow> synced w h (videoRef a) (canvasRef a) \<Longrightarrow>
   \<forall>e \<in> set es. keeps_resolution e \<Longrightarrow>
   (mounted (run es a) \<longrightarrow> synced w h (videoRef (run es a)) (canvasRef (run es a)))
   \<and> (\<exists>new. cycles (run es a) = cycles a @ new \<and> list_all (cycle_at w h) new)"
proof (induction es arbitrary: a)
  case Nil
  then show ?case by (simp add: run_Nil)
next
  case (Cons e es)
  from tracked_step [OF Cons.prems(1,2), of e] Cons.prems(3)
  obtain new1 where s1: "mounted (app_step a e)
        \<longrightarrow> synced w h (videoRef (app_step a e)) (canvasRef (app_step a e))"
    and c1: "cycles (app_step a e) = cycles a @ new1" "list_all (cycle_at w h) new1"
    by auto
  have p1: "pending_ok (app_step a e)"
    by (rule pending_ok_step [OF Cons.prems(1)])
  from Cons.IH [OF p1 s1] Cons.prems(3)
  obtain new2 where s2: "mounted (run es (app_step a e))
        \<longrightarrow> synced w h (videoRef (run es (app_step a e))) (canvasRef (run es (app_step a e)))"
    and c2: "cycles (run es (app_step a e)) = cycles (app_step a e) @ new2"
      "list_all (cycle_at w h) new2"
    by auto
  from s2 c1 c2 show ?case by (simp add: run_Cons)
qed

lemma loadedmetadata_syncs:
  assumes "onloadedmetadata a = Some SizeCanvasAndPlay"
    and "videoRef a \<noteq> None" and "canvasRef a \<noteq> None"
  shows "synced w h (videoRef (app_step a (LoadedMetadata w h)))
           (canvasRef (app_step a (LoadedMetadata w h)))
    \<and> cycles (app_step a (LoadedMetadata w h)) = cycles a"
  using assms by (auto simp: run_handler_def Let_def synced_def)

text \<open>
  Claim C2, as the code has it. When the stream came from the first request, the
  \<open>loadedmetadata\<close> handler sets the canvas to the native dimensions of the video.
  \<open>processFrame\<close> never resizes the canvas and draws the video at the canvas's
  dimensions. So every cycle from that \<open>loadedmetadata\<close> on runs with the canvas at the
  video's native \<open>w\<close> by \<open>h\<close> and draws at \<open>w\<close> by \<open>h\<close>, for as long as no event changes
  the native resolution of the source. The component may be updated and unmounted in
  between: the statement is for every state with the scheduling invariant, which every
  state the component reaches has (\<open>pending_ok_mount\<close>, \<open>pending_ok_run\<close>); after an
  unmount no cycle runs and the refs are null, so canvas and video are compared while the
  component is mounted.
\<close>

theorem canvas_tracks_video_until_resolution_change:
  assumes "onloadedmetadata a = Some SizeCanvasAndPlay"
    and "videoRef a \<noteq> None" and "canvasRef a \<noteq> None"
    and "\<forall>e \<in> set es. keeps_resolution e"
    and "pending_ok a"
  shows "list_all (cycle_at w h)
           (drop (length (cycles a)) (cycles (run (LoadedMetadata w h # es) a)))
    \<and> (mounted (run (LoadedMetadata w h # es) a)
         \<longrightarrow> synced w h (videoRef (run (LoadedMetadata w h # es) a))
               (canvasRef (run (LoadedMetadata w h # es) a)))"
proof -
  from loadedmetadata_syncs [OF assms(1-3), of w h]
  have s: "mounted (app_step a (LoadedMetadata w h))
         \<longrightarrow> synced w h (videoRef (app_step a (LoadedMetadata w h)))
           (canvasRef (app_step a (LoadedMetadata w h)))"
    and c: "cycles (app_step a (LoadedMetadata w h)) = cycles a"
    by simp_all
  have p: "pending_ok (app_step a (LoadedMetadata w h))"
    by (rule pending_ok_step [OF assms(5)])
  from tracked_run [OF p s assms(4)] c show ?thesis
    by (auto simp: run_Cons)
qed

theorem canvas_tracks_video_until_resolution_change_witness:
  "list_all (cycle_at 1280 720)
     (cycles (run [LoadedMetadata 1280 720, CanPlayThrough, AnimationFrame still_env,
                   UpdateSetting INITIAL_SETTINGS, AnimationFrame still_env, Unmount,
                   AnimationFrame still_env]
        (app_step (mount True) (CameraResolved (IdealStream [1])))))
   \<and> length (cycles (run [LoadedMetadata 1280 720, CanPlayThrough, AnimationFrame still_env,
                   UpdateSetting INITIAL_SETTINGS, AnimationFrame still_env, Unmount,
                   AnimationFrame still_env]
        (app_step (mount True) (CameraResolved (IdealStream [1]))))) = 2"
proof -
  have a: "onloadedmetadata (app_step (mount True) (CameraResolved (IdealStream [1])))
             = Some SizeCanvasAndPlay"
    "videoRef (app_step (mount True) (CameraResolved (IdealStream [1]))) \<noteq> None"
    "canvasRef (app_step (mount True) (CameraResolved (IdealStream [1]))) \<noteq> None"
    "cycles (app_step (mount True) (CameraResolved (IdealStream [1]))) = []"
    by (simp_all add: eval_defs)
  have k: "\<forall>e \<in> set [CanPlayThrough, AnimationFrame still_env,
                   UpdateSetting INITIAL_SETTINGS, AnimationFrame still_env, Unmount,
                   AnimationFrame still_env]. keeps_resolution e"
    by simp
  have p: "pending_ok (app_step (mount True) (CameraResolved (IdealStream [1])))"
    by (rule pending_ok_step [OF pending_ok_mount])
  have n: "length (cycles (run [LoadedMetadata 1280 720, CanPlayThrough,
                   AnimationFrame still_env, UpdateSetting INITIAL_SETTINGS,
                   AnimationFrame still_env, Unmount, AnimationFrame still_env]
        (app_step (mount True) (CameraResolved (IdealStream [1]))))) = 2"
    by (simp add: eval_defs rerender_def schedule_cleanup_def cancelAnimationFrame_def
        camera_cleanup_def)
  from canvas_tracks_video_until_resolution_change [OF a(1-3) k p, of 1280 720] n
  show ?thesis unfolding a(4) by simp
qed

text \<open>
  The claim as stated fails: after the source changes from 1920 by 1080 to 1080 by
  1920, the next cycle runs with the canvas still 1920 by 1080 and draws the video at
  1920 by 1080.
\<close>

theorem stale_resolution_counterexample:
  "map cyc_video (cycles (run [CameraResolved (IdealStream [1]), LoadedMetadata 1920 1080,
       CanPlayThrough, SourceResize 1080 1920, AnimationFrame still_env] (mount True)))
   = [Some \<lparr>readyState = 4, videoWidth = 1080, videoHeight = 1920, srcObject = Some [1]\<rparr>]
  \<and> map cyc_canvas (cycles (run [CameraResolved (IdealStream [1]), LoadedMetadata 1920 1080,
       CanPlayThrough, SourceResize 1080 1920, AnimationFrame still_env] (mount True)))
   = [Some \<lparr>width = 1920, height = 1080, context2d = True\<rparr>]
  \<and> map cyc_effects (cycles (run [CameraResolved (IdealStream [1]), LoadedMetadata 1920 1080,
       CanPlayThrough, SourceResize 1080 1920, AnimationFrame still_env] (mount True)))
   = [[SetFilter [Txt ''none''], SetGlobalCompositeOperation ''source-over'',
       SetFilter (filters INITIAL_SETTINGS), DrawImageVideo 0 0 1920 1080,
       SetGlobalAlpha (1 / 15), SetGlobalCompositeOperation ''screen'',
       SetFilter [Txt ''blur('', Num 8, Txt ''px) brightness(140%)''],
       DrawImageCanvas 0 0, SetGlobalCompositeOperation ''source-over'', SetGlobalAlpha 1,
       RequestAnimationFrame]]"
  by (simp add: eval_defs processFrame_def draw_def base_grade_def glow_stage_def
      INITIAL_SETTINGS_def still_env_def randoms_drawn_def)

text \<open>
  The handler registered for the fallback stream (line 93) only plays: the canvas keeps
  the 1920 by 1080 of the JSX whatever the native resolution of the fallback stream.
\<close>

lemma fallback_stream_leaves_canvas:
  "map cyc_canvas (cycles (run [CameraResolved (FallbackStream [1]), LoadedMetadata 640 480,
       CanPlayThrough, AnimationFrame still_env] (mount True)))
   = [Some \<lparr>width = 1920, height = 1080, context2d = True\<rparr>]
  \<and> map cyc_video (cycles (run [CameraResolved (FallbackStream [1]), LoadedMetadata 640 480,
       CanPlayThrough, AnimationFrame still_env] (mount True)))
   = [Some \<lparr>readyState = 4, videoWidth = 640, videoHeight = 480, srcObject = Some [1]\<rparr>]"
  by (simp add: eval_defs)

end
